theory Spec2Isabelle
  imports Main "HOL-Library.Finite_Map"
begin

section \<open>Python values\<close>

text \<open>
  The engine of \<^verbatim>\<open>pyfitterbap/pubsub.py\<close> is dynamically typed: topic values, metadata,
  the \<^verbatim>\<open>retain\<close>, \<^verbatim>\<open>forward\<close> and \<^verbatim>\<open>skip_retained\<close> flags and the callbacks are arbitrary
  Python objects. They are modelled by one datatype. \<open>VFn n\<close> is the callable object with
  identity \<open>n\<close> (a function or bound method); it is the only callable value. A dictionary
  has string keys and no duplicate keys, so it is a finite map.

  A float is not a number, an infinity with its sign (\<open>True\<close> for the positive one), or
  finite; a finite float is given by its value, which is a rational number (not every
  rational is the value of a float; the values beyond them do no harm). Floats are only
  compared and tested, never computed with, so nothing else of them is needed; the two
  zeros, which are equal, are one value.

  Values are compared by structure; the identity of objects is not modelled.
\<close>

datatype pyfloat = FNaN | FInf bool | FFin rat

datatype pyval =
    VNone
  | VBool bool
  | VInt int
  | VFloat pyfloat
  | VStr string
  | VTuple "pyval list"
  | VDict "(string, pyval) fmap"
  | VFn nat

datatype error = ValueError | KeyError | IndexError | TypeError | AttributeError

type_synonym 'a result = "error + 'a"

lemma size_fmran' [termination_simp]:
  fixes d :: "(string, pyval) fmap"
  assumes "z \<in> fmran' d"
  shows "size z < Suc (\<Sum>x\<in>fset (fset_of_fmap d). Suc (case x of (a, x) \<Rightarrow> size x))"
proof -
  let ?f = "\<lambda>x::string \<times> pyval. Suc (case x of (a, x) \<Rightarrow> size x)"
  from assms obtain k where "fmlookup d k = Some z"
    by (auto simp: fmran'_def)
  then have m: "(k, z) \<in> fset (fset_of_fmap d)"
    by simp
  have "?f (k, z) \<le> sum ?f (fset (fset_of_fmap d))"
    by (rule member_le_sum[OF m]) auto
  then show ?thesis
    by simp
qed

declare fmap.rel_cong [fundef_cong]

text \<open>
  \<^verbatim>\<open>==\<close> on floats: not-a-number equals nothing, itself included.
\<close>

fun float_eq :: "pyfloat \<Rightarrow> pyfloat \<Rightarrow> bool" where
  "float_eq (FFin p) (FFin q) = (p = q)"
| "float_eq (FInf a) (FInf b) = (a = b)"
| "float_eq _ _ = False"

text \<open>
  Python's \<^verbatim>\<open>==\<close>. \<^verbatim>\<open>True == 1\<close> and \<^verbatim>\<open>False == 0\<close> hold, a boolean or an integer equals
  the float of the same value, tuples compare element by element, dictionaries by key set
  and value, functions by identity; values of different kinds are unequal.
\<close>

fun py_eq :: "pyval \<Rightarrow> pyval \<Rightarrow> bool" where
  "py_eq VNone VNone = True"
| "py_eq (VBool a) (VBool b) = (a = b)"
| "py_eq (VBool a) (VInt j) = ((if a then 1 else 0) = j)"
| "py_eq (VBool a) (VFloat y) = float_eq (FFin (if a then 1 else 0)) y"
| "py_eq (VInt i) (VBool b) = (i = (if b then 1 else 0))"
| "py_eq (VInt i) (VInt j) = (i = j)"
| "py_eq (VInt i) (VFloat y) = float_eq (FFin (of_int i)) y"
| "py_eq (VFloat x) (VBool b) = float_eq x (FFin (if b then 1 else 0))"
| "py_eq (VFloat x) (VInt j) = float_eq x (FFin (of_int j))"
| "py_eq (VFloat x) (VFloat y) = float_eq x y"
| "py_eq (VStr s) (VStr t) = (s = t)"
| "py_eq (VTuple xs) (VTuple ys) = list_all2 py_eq xs ys"
| "py_eq (VDict d) (VDict e) = fmrel py_eq d e"
| "py_eq (VFn m) (VFn n) = (m = n)"
| "py_eq _ _ = False"

text \<open>
  \<^verbatim>\<open>x in xs\<close> for a Python list \<open>xs\<close>. Python also accepts an element that is the object
  \<open>x\<close> itself. The lists tested below hold integers and strings (the literals of
  \<^verbatim>\<open>_as_bool\<close>) or the tuples that \<^verbatim>\<open>subscribe\<close> builds, and an object that is one of these
  is also \<^verbatim>\<open>==\<close> to it.
\<close>

definition py_in :: "pyval \<Rightarrow> pyval list \<Rightarrow> bool" where
  "py_in x xs = list_ex (\<lambda>e. py_eq x e) xs"

text \<open>\<^verbatim>\<open>bool(x)\<close>, Python's truth value.\<close>

fun py_bool :: "pyval \<Rightarrow> bool" where
  "py_bool VNone = False"
| "py_bool (VBool b) = b"
| "py_bool (VInt i) = (i \<noteq> 0)"
| "py_bool (VFloat x) = (x \<noteq> FFin 0)"
| "py_bool (VStr s) = (s \<noteq> [])"
| "py_bool (VTuple xs) = (xs \<noteq> [])"
| "py_bool (VDict d) = (d \<noteq> fmempty)"
| "py_bool (VFn n) = True"

text \<open>\<^verbatim>\<open>callable(x)\<close>, and the identity of a callable.\<close>

fun callable :: "pyval \<Rightarrow> bool" where
  "callable (VFn n) = True"
| "callable _ = False"

fun fn_id :: "pyval \<Rightarrow> nat" where
  "fn_id (VFn n) = n"

text \<open>\<^verbatim>\<open>str.lower\<close> on ASCII letters; other bytes are kept.\<close>

definition lower_char :: "char \<Rightarrow> char" where
  "lower_char c =
     (let n = (of_char c :: nat) in if 65 \<le> n \<and> n \<le> 90 then char_of (n + 32) else c)"

definition lower :: "string \<Rightarrow> string" where
  "lower s = map lower_char s"

text \<open>\<^verbatim>\<open>_as_bool\<close>.\<close>

definition as_bool :: "pyval \<Rightarrow> bool result" where
  "as_bool x0 =
     (let x = (case x0 of VStr s \<Rightarrow> VStr (lower s) | _ \<Rightarrow> x0) in
      if py_in x [VInt 0, VStr ''no'', VStr ''off'', VStr ''disable'', VStr ''disabled'',
                  VStr ''false'', VStr ''inactive''] then Inr False
      else if py_in x [VInt 1, VStr ''yes'', VStr ''on'', VStr ''enable'', VStr ''enabled'',
                  VStr ''true'', VStr ''active''] then Inr True
      else Inl ValueError)"

section \<open>Strings\<close>

definition startswith :: "string \<Rightarrow> string \<Rightarrow> bool" where
  "startswith s p = (take (length p) s = p)"

definition endswith :: "string \<Rightarrow> string \<Rightarrow> bool" where
  "endswith s p = (length p \<le> length s \<and> drop (length s - length p) s = p)"

text \<open>\<^verbatim>\<open>p in s\<close> for strings: \<open>p\<close> occurs in \<open>s\<close> as a substring.\<close>

fun contains_str :: "string \<Rightarrow> string \<Rightarrow> bool" where
  "contains_str [] p = (p = [])"
| "contains_str (c # cs) p = (startswith (c # cs) p \<or> contains_str cs p)"

text \<open>\<^verbatim>\<open>s.split(sep)\<close> for a separator of one character.\<close>

fun split :: "char \<Rightarrow> string \<Rightarrow> string list" where
  "split sep [] = [[]]"
| "split sep (c # cs) =
     (if c = sep then [] # split sep cs
      else (case split sep cs of [] \<Rightarrow> [[c]] | p # ps \<Rightarrow> (c # p) # ps))"

text \<open>\<^verbatim>\<open>sep.join(parts)\<close>.\<close>

fun join :: "string \<Rightarrow> string list \<Rightarrow> string" where
  "join sep [] = []"
| "join sep [p] = p"
| "join sep (p # q # ps) = p @ sep @ join sep (q # ps)"

section \<open>The topic tree\<close>

text \<open>
  \<^verbatim>\<open>class _Topic\<close>. The children dictionary keeps insertion order, which is the order in
  which \<^verbatim>\<open>children.values()\<close> iterates, so it is an association list; a new child is
  appended. A subscriber is stored only after \<^verbatim>\<open>callable(cbk)\<close> has held, so an entry of
  the subscriber list is the identity \<open>n\<close> of the callable \<open>VFn n\<close> with the forward flag as
  it was given. The \<^verbatim>\<open>parent\<close> weak reference is not stored: a node is addressed by the
  list of path segments that leads to it from the root, and its ancestors are the nodes
  met on that way.
\<close>

datatype topic =
  Topic (topic_name: string) (topic_value: pyval) (topic_meta: pyval)
        (topic_children: "(string \<times> topic) list") (topic_subscribers: "(nat \<times> pyval) list")

text \<open>
  A callback is code outside the engine. The model records every invocation, in program
  order: the callable, the arguments passed (the third argument is absent in the replay
  to a new subscriber), and the tree as it is at the moment of the call, which is what the
  callback finds when it reads the engine.
\<close>

record call =
  call_cbk :: nat
  call_topic :: string
  call_value :: pyval
  call_retain :: "pyval option"
  call_tree :: topic

text \<open>\<^verbatim>\<open>class PubSub\<close>, with the trace of the callback invocations made so far.\<close>

record pubsub =
  topic_prefix :: string
  root :: topic
  calls :: "call list"

text \<open>\<^verbatim>\<open>PubSub.__init__\<close>; \<open>None\<close> is the argument \<^verbatim>\<open>topic_prefix=None\<close>.\<close>

definition init :: "string option \<Rightarrow> pubsub" where
  "init prefix_arg =
     \<lparr>topic_prefix = (case prefix_arg of None \<Rightarrow> [] | Some p \<Rightarrow> p),
      root = Topic [] VNone VNone [] [],
      calls = []\<rparr>"

subsection \<open>Path resolution\<close>

text \<open>The loop that removes trailing \<^verbatim>\<open>/\<close>, \<^verbatim>\<open>$\<close> and \<^verbatim>\<open>?\<close>, and the split into parts.\<close>

definition strip_topic :: "string \<Rightarrow> string" where
  "strip_topic topic = rev (dropWhile (\<lambda>c. c \<in> set ''/$?'') (rev topic))"

definition topic_parts :: "string \<Rightarrow> string list" where
  "topic_parts topic =
     (let t = strip_topic topic in if t = [] then [] else split CHR ''/'' t)"

fun find_node :: "topic \<Rightarrow> string list \<Rightarrow> topic option" where
  "find_node t [] = Some t"
| "find_node t (part # parts) =
     (case map_of (topic_children t) part of
        None \<Rightarrow> None
      | Some child \<Rightarrow> find_node child parts)"

fun child_put :: "string \<Rightarrow> topic \<Rightarrow> (string \<times> topic) list \<Rightarrow> (string \<times> topic) list" where
  "child_put part c [] = []"
| "child_put part c ((k, x) # cs) =
     (if k = part then (k, c) # cs else (k, x) # child_put part c cs)"

text \<open>
  The descent of \<^verbatim>\<open>_topic_find\<close> with \<^verbatim>\<open>create=True\<close>: \<open>parts_so_far\<close> is the list of the
  source, \<open>t\<close> the node reached.
\<close>

fun create_nodes :: "string list \<Rightarrow> topic \<Rightarrow> string list \<Rightarrow> topic" where
  "create_nodes parts_so_far t [] = t"
| "create_nodes parts_so_far t (part # parts) =
     (case map_of (topic_children t) part of
        None \<Rightarrow>
          Topic (topic_name t) (topic_value t) (topic_meta t)
            (topic_children t @
               [(part, create_nodes (parts_so_far @ [part])
                         (Topic (join ''/'' (parts_so_far @ [part])) VNone VNone [] []) parts)])
            (topic_subscribers t)
      | Some child \<Rightarrow>
          Topic (topic_name t) (topic_value t) (topic_meta t)
            (child_put part (create_nodes (parts_so_far @ [part]) child parts) (topic_children t))
            (topic_subscribers t))"

text \<open>
  \<^verbatim>\<open>_topic_find\<close>. The node it returns is given by its address; with \<^verbatim>\<open>create=False\<close> the
  result is \<open>None\<close> when a segment is missing.
\<close>

definition topic_find_create :: "pubsub \<Rightarrow> string \<Rightarrow> pubsub \<times> string list" where
  "topic_find_create s topic =
     (s\<lparr>root := create_nodes [] (root s) (topic_parts topic)\<rparr>, topic_parts topic)"

definition topic_find :: "pubsub \<Rightarrow> string \<Rightarrow> string list option" where
  "topic_find s topic =
     (case find_node (root s) (topic_parts topic) of
        None \<Rightarrow> None
      | Some t \<Rightarrow> Some (topic_parts topic))"

text \<open>\<^verbatim>\<open>_topic_find_existing_base\<close>: the address of the deepest existing node on the way.\<close>

fun existing_base :: "topic \<Rightarrow> string list \<Rightarrow> string list" where
  "existing_base t [] = []"
| "existing_base t (part # parts) =
     (case map_of (topic_children t) part of
        None \<Rightarrow> []
      | Some child \<Rightarrow> part # existing_base child parts)"

definition topic_find_existing_base :: "pubsub \<Rightarrow> string \<Rightarrow> string list" where
  "topic_find_existing_base s topic = existing_base (root s) (topic_parts topic)"

subsection \<open>Reading and writing a node by its address\<close>

fun update_node :: "(topic \<Rightarrow> topic) \<Rightarrow> topic \<Rightarrow> string list \<Rightarrow> topic" where
  "update_node f t [] = f t"
| "update_node f t (part # parts) =
     (case map_of (topic_children t) part of
        None \<Rightarrow> t
      | Some child \<Rightarrow>
          Topic (topic_name t) (topic_value t) (topic_meta t)
            (child_put part (update_node f child parts) (topic_children t))
            (topic_subscribers t))"

definition set_value :: "pyval \<Rightarrow> topic \<Rightarrow> topic" where
  "set_value x t =
     Topic (topic_name t) x (topic_meta t) (topic_children t) (topic_subscribers t)"

definition set_meta :: "pyval \<Rightarrow> topic \<Rightarrow> topic" where
  "set_meta m t =
     Topic (topic_name t) (topic_value t) m (topic_children t) (topic_subscribers t)"

definition set_subscribers :: "(nat \<times> pyval) list \<Rightarrow> topic \<Rightarrow> topic" where
  "set_subscribers subs t =
     Topic (topic_name t) (topic_value t) (topic_meta t) (topic_children t) subs"

text \<open>The nodes from the root down to the addressed node, and the walk up the parents.\<close>

fun path_nodes :: "topic \<Rightarrow> string list \<Rightarrow> topic list" where
  "path_nodes t [] = [t]"
| "path_nodes t (part # parts) =
     t # (case map_of (topic_children t) part of
            None \<Rightarrow> []
          | Some child \<Rightarrow> path_nodes child parts)"

definition walk_up :: "topic \<Rightarrow> string list \<Rightarrow> topic list" where
  "walk_up r parts = rev (path_nodes r parts)"

section \<open>Operations of a node\<close>

text \<open>
  The inner loop of \<^verbatim>\<open>_Topic.publish\<close> over the subscribers of one node, and the outer
  loop over the node and its ancestors. \<open>r\<close> is the tree at the time of the calls.
\<close>

fun publish_node_calls ::
  "topic \<Rightarrow> string \<Rightarrow> pyval \<Rightarrow> pyval \<Rightarrow> pyval \<Rightarrow> (nat \<times> pyval) list \<Rightarrow> call list" where
  "publish_node_calls r name x retain src_cbk [] = []"
| "publish_node_calls r name x retain src_cbk ((subscriber, forward) # subs) =
     (if py_eq (VFn subscriber) src_cbk then publish_node_calls r name x retain src_cbk subs
      else \<lparr>call_cbk = subscriber, call_topic = name, call_value = x,
            call_retain = Some retain, call_tree = r\<rparr>
           # publish_node_calls r name x retain src_cbk subs)"

fun publish_walk_calls ::
  "topic \<Rightarrow> string \<Rightarrow> pyval \<Rightarrow> pyval \<Rightarrow> pyval \<Rightarrow> topic list \<Rightarrow> call list" where
  "publish_walk_calls r name x retain src_cbk [] = []"
| "publish_walk_calls r name x retain src_cbk (topic # up) =
     publish_node_calls r name x retain src_cbk (topic_subscribers topic)
     @ publish_walk_calls r name x retain src_cbk up"

text \<open>\<^verbatim>\<open>_Topic.publish\<close> on the node at address \<open>parts\<close>.\<close>

definition topic_publish :: "pubsub \<Rightarrow> string list \<Rightarrow> pyval \<Rightarrow> pyval \<Rightarrow> pyval \<Rightarrow> pubsub" where
  "topic_publish s parts x retain src_cbk =
     (case find_node (root s) parts of
        None \<Rightarrow> s
      | Some t \<Rightarrow>
          if py_bool retain \<and> py_eq (topic_value t) x then s
          else
            (let r = update_node (set_value (if py_bool retain then x else VNone)) (root s) parts
             in s\<lparr>root := r,
                  calls := calls s
                    @ publish_walk_calls r (topic_name t) x retain src_cbk (walk_up r parts)\<rparr>))"

text \<open>\<^verbatim>\<open>_Topic.forward\<close>: the loop over one node, and the recursion to the parents.\<close>

fun forward_node_calls ::
  "topic \<Rightarrow> string \<Rightarrow> pyval \<Rightarrow> pyval \<Rightarrow> pyval \<Rightarrow> (nat \<times> pyval) list \<Rightarrow> call list" where
  "forward_node_calls r topic v retain src_cbk [] = []"
| "forward_node_calls r topic v retain src_cbk ((subscriber, forward) # subs) =
     (if py_eq (VFn subscriber) src_cbk \<or> \<not> py_bool forward
      then forward_node_calls r topic v retain src_cbk subs
      else \<lparr>call_cbk = subscriber, call_topic = topic, call_value = v,
            call_retain = Some retain, call_tree = r\<rparr>
           # forward_node_calls r topic v retain src_cbk subs)"

fun forward_walk_calls ::
  "topic \<Rightarrow> string \<Rightarrow> pyval \<Rightarrow> pyval \<Rightarrow> pyval \<Rightarrow> bool \<Rightarrow> topic list \<Rightarrow> call list" where
  "forward_walk_calls r topic v retain src_cbk traverse_parent [] = []"
| "forward_walk_calls r topic v retain src_cbk traverse_parent (t # up) =
     forward_node_calls r topic v retain src_cbk (topic_subscribers t)
     @ (if traverse_parent then forward_walk_calls r topic v retain src_cbk traverse_parent up
        else [])"

definition topic_forward ::
  "pubsub \<Rightarrow> string list \<Rightarrow> string \<Rightarrow> pyval \<Rightarrow> pyval \<Rightarrow> pyval \<Rightarrow> bool \<Rightarrow> pubsub" where
  "topic_forward s parts topic v retain src_cbk traverse_parent =
     (case find_node (root s) parts of
        None \<Rightarrow> s
      | Some t \<Rightarrow>
          s\<lparr>calls := calls s
               @ forward_walk_calls (root s) topic v retain src_cbk traverse_parent
                   (walk_up (root s) parts)\<rparr>)"

text \<open>\<^verbatim>\<open>_Topic._publish_new_subscriber\<close>: children first, then the node itself.\<close>

fun publish_new_subscriber :: "topic \<Rightarrow> nat \<Rightarrow> topic \<Rightarrow> call list" where
  "publish_new_subscriber r cbk (Topic name v m cs subs) =
     concat (map (\<lambda>kc. publish_new_subscriber r cbk (snd kc)) cs)
     @ (if v \<noteq> VNone
        then [\<lparr>call_cbk = cbk, call_topic = name, call_value = v,
               call_retain = None, call_tree = r\<rparr>]
        else [])"

text \<open>
  \<^verbatim>\<open>_Topic.subscribe\<close>. The test \<^verbatim>\<open>cbk not in self._subscribers\<close> compares \<open>cbk\<close> with the
  entries of the list, which are the tuples \<^verbatim>\<open>(callback, forward)\<close>.
\<close>

definition subscriber_tuples :: "(nat \<times> pyval) list \<Rightarrow> pyval list" where
  "subscriber_tuples subs = map (\<lambda>(subscriber, forward). VTuple [VFn subscriber, forward]) subs"

definition topic_subscribe ::
  "pubsub \<Rightarrow> string list \<Rightarrow> pyval \<Rightarrow> pyval \<Rightarrow> pyval \<Rightarrow> pubsub \<times> unit result" where
  "topic_subscribe s parts cbk skip_retained forward =
     (if \<not> callable cbk then (s, Inl ValueError)
      else
        (case find_node (root s) parts of
           None \<Rightarrow> (s, Inr ())
         | Some t \<Rightarrow>
             (let subs = (if \<not> py_in cbk (subscriber_tuples (topic_subscribers t))
                          then topic_subscribers t @ [(fn_id cbk, forward)]
                          else topic_subscribers t);
                  r = update_node (set_subscribers subs) (root s) parts;
                  replay = (if \<not> py_bool skip_retained
                            then publish_new_subscriber r (fn_id cbk) (set_subscribers subs t)
                            else [])
              in (s\<lparr>root := r, calls := calls s @ replay\<rparr>, Inr ()))))"

text \<open>\<^verbatim>\<open>_Topic.unsubscribe\<close>: every entry whose callback equals \<open>cbk\<close> is removed.\<close>

definition topic_unsubscribe :: "pubsub \<Rightarrow> string list \<Rightarrow> pyval \<Rightarrow> pubsub" where
  "topic_unsubscribe s parts cbk =
     s\<lparr>root := update_node
          (\<lambda>t. set_subscribers
                 (filter (\<lambda>(cbk_fn, forward). \<not> py_eq cbk (VFn cbk_fn)) (topic_subscribers t)) t)
          (root s) parts\<rparr>"

section \<open>Operations of the engine\<close>

text \<open>
  \<^verbatim>\<open>PubSub._meta_send_all\<close>: the node first, then its children. \<open>up\<close> holds the ancestors
  of the node, the parent first, for the walk of \<^verbatim>\<open>forward\<close>.
\<close>

fun meta_send_all_calls :: "topic \<Rightarrow> topic list \<Rightarrow> pyval \<Rightarrow> topic \<Rightarrow> call list" where
  "meta_send_all_calls r up src_cbk (Topic name v m cs subs) =
     (if m \<noteq> VNone
      then forward_walk_calls r (name @ ''$'') m (VBool False) src_cbk True
             (Topic name v m cs subs # up)
      else [])
     @ concat (map (\<lambda>kc. meta_send_all_calls r (Topic name v m cs subs # up) src_cbk (snd kc)) cs)"

definition meta_send_all :: "pubsub \<Rightarrow> string list \<Rightarrow> pyval \<Rightarrow> pubsub" where
  "meta_send_all s parts src_cbk =
     (case find_node (root s) parts of
        None \<Rightarrow> s
      | Some t \<Rightarrow>
          s\<lparr>calls := calls s
               @ meta_send_all_calls (root s) (tl (walk_up (root s) parts)) src_cbk t\<rparr>)"

text \<open>\<^verbatim>\<open>PubSub.publish\<close>.\<close>

definition publish :: "pubsub \<Rightarrow> string \<Rightarrow> pyval \<Rightarrow> pyval \<Rightarrow> pyval \<Rightarrow> pubsub \<times> unit result" where
  "publish s topic v retain src_cbk =
     (if topic = [] then (s, Inl ValueError)
      else if topic = ''$'' then
        (let (s1, parts) = topic_find_create s (topic_prefix s);
             s2 = meta_send_all s1 parts src_cbk
         in (topic_forward s2 [] topic VNone retain src_cbk False, Inr ()))
      else if endswith topic ''/$'' then
        (if startswith topic (topic_prefix s) then
           (let (s1, parts) = topic_find_create s topic
            in (meta_send_all s1 parts src_cbk, Inr ()))
         else
           (topic_forward s (topic_find_existing_base s topic) topic VNone retain src_cbk True,
            Inr ()))
      else if last topic = CHR ''$'' then
        (let (s1, parts) = topic_find_create s (butlast topic) in
         if startswith topic (topic_prefix s) then
           (if v = VNone then
              (case find_node (root s1) parts of
                 None \<Rightarrow> (s1, Inr ())
               | Some t \<Rightarrow>
                   if topic_value t \<noteq> VNone
                   then (topic_forward s1 parts topic (topic_value t) (VBool True) src_cbk True,
                         Inr ())
                   else (s1, Inr ()))
            else
              (topic_forward (s1\<lparr>root := update_node (set_meta v) (root s1) parts\<rparr>)
                 parts topic v (VBool True) src_cbk True,
               Inr ()))
         else (topic_forward s1 parts topic v (VBool True) src_cbk True, Inr ()))
      else if last topic = CHR ''?'' then (s, Inr ())
      else
        (let (s1, parts) = topic_find_create s topic
         in (topic_publish s1 parts v retain src_cbk, Inr ())))"

text \<open>\<^verbatim>\<open>PubSub.meta\<close>; \<^verbatim>\<open>topic[-1]\<close> of the empty string raises \<^verbatim>\<open>IndexError\<close>.\<close>

definition meta :: "pubsub \<Rightarrow> string \<Rightarrow> pyval \<Rightarrow> pubsub \<times> unit result" where
  "meta s topic m =
     (if topic = [] then (s, Inl IndexError)
      else publish s (if last topic \<noteq> CHR ''$'' then topic @ ''$'' else topic) m VNone VNone)"

text \<open>\<^verbatim>\<open>PubSub.get\<close>.\<close>

definition get :: "pubsub \<Rightarrow> string \<Rightarrow> pyval result" where
  "get s topic =
     (case topic_find s topic of
        None \<Rightarrow> Inl KeyError
      | Some parts \<Rightarrow>
          (case find_node (root s) parts of
             None \<Rightarrow> Inl KeyError
           | Some t \<Rightarrow> Inr (topic_value t)))"

text \<open>\<^verbatim>\<open>PubSub.subscribe\<close> and \<^verbatim>\<open>PubSub.unsubscribe\<close>.\<close>

definition subscribe ::
  "pubsub \<Rightarrow> string \<Rightarrow> pyval \<Rightarrow> pyval \<Rightarrow> pyval \<Rightarrow> pubsub \<times> unit result" where
  "subscribe s topic cbk skip_retained forward =
     (let (s1, parts) = topic_find_create s topic
      in topic_subscribe s1 parts cbk skip_retained forward)"

definition unsubscribe :: "pubsub \<Rightarrow> string \<Rightarrow> pyval \<Rightarrow> pubsub \<times> unit result" where
  "unsubscribe s topic cbk =
     (let (s1, parts) = topic_find_create s topic
      in (topic_unsubscribe s1 parts cbk, Inr ()))"

text \<open>
  \<^verbatim>\<open>PubSub.create\<close>. \<^verbatim>\<open>'default' in meta\<close> is a key test on a dictionary, a substring test
  on a string, an element test on a tuple and a \<^verbatim>\<open>TypeError\<close> otherwise; \<^verbatim>\<open>meta.get\<close>
  exists on a dictionary only.
\<close>

definition has_default :: "pyval \<Rightarrow> bool result" where
  "has_default m =
     (case m of
        VDict d \<Rightarrow> Inr (''default'' |\<in>| fmdom d)
      | VStr s \<Rightarrow> Inr (contains_str s ''default'')
      | VTuple xs \<Rightarrow> Inr (py_in (VStr ''default'') xs)
      | _ \<Rightarrow> Inl TypeError)"

definition create ::
  "pubsub \<Rightarrow> string \<Rightarrow> pyval \<Rightarrow> pyval \<Rightarrow> pyval \<Rightarrow> pyval \<Rightarrow> pubsub \<times> unit result" where
  "create s topic m subscriber_cbk skip_retained forward =
     (if topic_find s topic \<noteq> None then (s, Inl ValueError)
      else
        (let (s1, parts) = topic_find_create s topic;
             s2 = s1\<lparr>root := update_node (set_meta m) (root s1) parts\<rparr>;
             published =
               (if m = VNone then (s2, Inr ())
                else
                  (case has_default m of
                     Inl e \<Rightarrow> (s2, Inl e)
                   | Inr False \<Rightarrow> (s2, Inr ())
                   | Inr True \<Rightarrow>
                       (case m of
                          VDict d \<Rightarrow>
                            (case as_bool (case fmlookup d ''retain'' of
                                             None \<Rightarrow> VInt 0 | Some x \<Rightarrow> x) of
                               Inl e \<Rightarrow> (s2, Inl e)
                             | Inr retain \<Rightarrow>
                                 (case fmlookup d ''default'' of
                                    None \<Rightarrow> (s2, Inl KeyError)
                                  | Some x \<Rightarrow>
                                      (topic_publish s2 parts x (VBool retain) subscriber_cbk,
                                       Inr ())))
                        | _ \<Rightarrow> (s2, Inl AttributeError))))
         in (case published of
               (s3, Inl e) \<Rightarrow> (s3, Inl e)
             | (s3, Inr u) \<Rightarrow>
                 if subscriber_cbk \<noteq> VNone
                 then topic_subscribe s3 parts subscriber_cbk skip_retained forward
                 else (s3, Inr ()))))"

text \<open>
  The topics that \<^verbatim>\<open>publish\<close> dispatches to its last branch, the ordinary value publish:
  not empty, and not ending in \<^verbatim>\<open>$\<close> or \<^verbatim>\<open>?\<close>.
\<close>

definition value_topic :: "string \<Rightarrow> bool" where
  "value_topic topic =
     (topic \<noteq> [] \<and> last topic \<noteq> CHR ''$'' \<and> last topic \<noteq> CHR ''?'')"

text \<open>
  The name of a node is the path that leads to it: \<^verbatim>\<open>_topic_find\<close> names a new node
  \<^verbatim>\<open>'/'.join(parts_so_far)\<close>, and no operation renames a node. The predicate says so for
  a whole tree; it holds of the tree of \<^verbatim>\<open>PubSub()\<close> and every operation of the engine
  keeps it.
\<close>

fun names_ok :: "string list \<Rightarrow> topic \<Rightarrow> bool" where
  "names_ok parts_so_far (Topic name v m cs subs) =
     (name = join ''/'' parts_so_far \<and>
      (\<forall>kc \<in> set cs. names_ok (parts_so_far @ [fst kc]) (snd kc)))"


section \<open>Two bridged engines\<close>

text \<open>
  Modelled from the spec: the Bridge Adapter of section 4.3, which couples two engines. The
  sources hold one side of it only, class \<^verbatim>\<open>Device\<close> of \<^verbatim>\<open>comm/ui/main.py\<close>, whose other
  engine is the native endpoint; here both engines are engines as above. The adapter has
  one relay function subscribed on each engine. When an engine invokes its relay with an
  event, the relay maps the topic (adding or stripping the prefix; \<open>None\<close> when the event is
  not for the other side) and publishes the event on the other engine, passing the relay
  function subscribed there as the excluded source, as \<^verbatim>\<open>_subscribe_device\<close> and
  \<^verbatim>\<open>_subscribe_parent\<close> do. \<open>relayed\<close> lists the events republished so far, each with
  the side it was published on.
\<close>

datatype side = Inner | Outer

fun other :: "side \<Rightarrow> side" where
  "other Inner = Outer"
| "other Outer = Inner"

record bridge =
  inner :: pubsub
  outer :: pubsub
  relay_inner :: nat
  relay_outer :: nat
  to_outer :: "string \<Rightarrow> string option"
  to_inner :: "string \<Rightarrow> string option"
  relayed :: "(side \<times> string \<times> pyval) list"

fun engine :: "side \<Rightarrow> bridge \<Rightarrow> pubsub" where
  "engine Inner b = inner b"
| "engine Outer b = outer b"

fun set_engine :: "side \<Rightarrow> pubsub \<Rightarrow> bridge \<Rightarrow> bridge" where
  "set_engine Inner e b = b\<lparr>inner := e\<rparr>"
| "set_engine Outer e b = b\<lparr>outer := e\<rparr>"

fun relay_of :: "side \<Rightarrow> bridge \<Rightarrow> nat" where
  "relay_of Inner b = relay_inner b"
| "relay_of Outer b = relay_outer b"

fun relay_topic :: "side \<Rightarrow> bridge \<Rightarrow> string \<Rightarrow> string option" where
  "relay_topic Inner b topic = to_outer b topic"
| "relay_topic Outer b topic = to_inner b topic"






text \<open>The event that the invocation \<open>c\<close> on the side \<open>sd\<close> makes the relay republish.\<close>

definition relay_event :: "side \<Rightarrow> bridge \<Rightarrow> call \<Rightarrow> (side \<times> string \<times> pyval) list" where
  "relay_event sd b c =
     (if call_cbk c = relay_of sd b
      then (case relay_topic sd b (call_topic c) of
              None \<Rightarrow> []
            | Some topic \<Rightarrow> [(other sd, topic, call_value c)])
      else [])"

section \<open>Basic facts\<close>

lemmas engine_defs =
  init_def publish_def meta_def get_def subscribe_def unsubscribe_def create_def
  topic_find_create_def topic_find_def topic_find_existing_base_def topic_parts_def
  strip_topic_def topic_publish_def topic_forward_def topic_subscribe_def
  topic_unsubscribe_def meta_send_all_def walk_up_def set_value_def set_meta_def
  set_subscribers_def subscriber_tuples_def py_in_def startswith_def endswith_def
  has_default_def as_bool_def lower_def lower_char_def Let_def

lemma map_of_child_put:
  "map_of (child_put part c cs) q =
     (if q = part \<and> map_of cs part \<noteq> None then Some c else map_of cs q)"
  by (induction cs) auto

lemma child_put_same: "map_of cs part = Some c \<Longrightarrow> child_put part c cs = cs"
  by (induction cs) (auto split: if_splits)

lemma find_node_update_node:
  "find_node (update_node f t parts) parts = map_option f (find_node t parts)"
proof (induction parts arbitrary: t)
  case Nil
  show ?case by simp
next
  case (Cons part parts)
  show ?case
  proof (cases "map_of (topic_children t) part")
    case None
    then show ?thesis by simp
  next
    case (Some child)
    then show ?thesis
      by (simp add: map_of_child_put Cons.IH)
  qed
qed

text \<open>Resolving a path that exists changes nothing.\<close>

lemma create_nodes_existing:
  "find_node t parts = Some n \<Longrightarrow> create_nodes sofar t parts = t"
proof (induction parts arbitrary: t sofar)
  case Nil
  show ?case by simp
next
  case (Cons part parts)
  then obtain child where c: "map_of (topic_children t) part = Some child"
    and f: "find_node child parts = Some n"
    by (auto split: option.splits)
  have "create_nodes (sofar @ [part]) child parts = child"
    using Cons.IH[OF f] .
  with c show ?case
    by (simp add: child_put_same)
qed

lemma find_node_leaf:
  "find_node (Topic name v m [] subs) parts =
     (if parts = [] then Some (Topic name v m [] subs) else None)"
  by (cases parts) auto

text \<open>
  After resolving with creation the node is there: the node that was there before, or a
  new node without value, metadata, children and subscribers.
\<close>

lemma find_node_create_nodes:
  "find_node (create_nodes sofar t parts) parts =
     Some (case find_node t parts of
             Some n \<Rightarrow> n
           | None \<Rightarrow> Topic (join ''/'' (sofar @ parts)) VNone VNone [] [])"
proof (induction parts arbitrary: t sofar)
  case Nil
  show ?case by simp
next
  case (Cons part parts)
  show ?case
  proof (cases "map_of (topic_children t) part")
    case None
    then show ?thesis
      by (simp add: map_add_def Cons.IH find_node_leaf)
  next
    case (Some child)
    then show ?thesis
      by (simp add: map_of_child_put Cons.IH split: option.split)
  qed
qed

lemma endswith_last: "endswith topic ''/$'' \<Longrightarrow> last topic = CHR ''$''"
proof -
  assume "endswith topic ''/$''"
  then have "topic = take (length topic - 2) topic @ ''/$''"
    by (metis append_take_drop_id endswith_def length_Cons list.size(3) numeral_2_eq_2)
  then have "last topic = last (take (length topic - 2) topic @ ''/$'')"
    by simp
  then show ?thesis
    by simp
qed

lemma publish_value_topic:
  assumes "value_topic topic"
  shows "publish s topic v retain src_cbk =
           (topic_publish (fst (topic_find_create s topic)) (topic_parts topic) v retain src_cbk,
            Inr ())"
proof -
  from assms have ne: "topic \<noteq> []" and l1: "last topic \<noteq> CHR ''$''"
    and l2: "last topic \<noteq> CHR ''?''"
    by (auto simp: value_topic_def)
  from l1 have "topic \<noteq> ''$''"
    by auto
  moreover from l1 have "\<not> endswith topic ''/$''"
    using endswith_last by blast
  ultimately show ?thesis
    using ne l1 l2 by (simp add: publish_def topic_find_create_def)
qed

lemma get_find_node:
  "get s topic =
     (case find_node (root s) (topic_parts topic) of
        None \<Rightarrow> Inl KeyError
      | Some t \<Rightarrow> Inr (topic_value t))"
  by (simp add: get_def topic_find_def split: option.split)

section \<open>Retained values\<close>

text \<open>
  C5, as amended. For every value topic \<open>T\<close> (not empty, not ending in \<^verbatim>\<open>$\<close> or \<^verbatim>\<open>?\<close>)
  and every value \<open>V\<close>: \<^verbatim>\<open>publish(T, V, retain=true)\<close> succeeds, and \<^verbatim>\<open>get(T)\<close> right
  after it returns \<open>V\<close> itself, except when the node already retained a value \<open>old\<close> with
  \<^verbatim>\<open>old == V\<close>: then the publish is deduplicated and \<^verbatim>\<open>get(T)\<close> returns \<open>old\<close>. Here \<open>old\<close>
  is what \<^verbatim>\<open>get(T)\<close> returns once the topic is resolved, \<open>None\<close> for a new node.
\<close>

theorem publish_retain_get:
  assumes "value_topic T" and "py_bool retain"
  shows "snd (publish s T V retain src_cbk) = Inr () \<and>
         (\<exists>old. get (fst (topic_find_create s T)) T = Inr old \<and>
                get (fst (publish s T V retain src_cbk)) T
                  = Inr (if py_eq old V then old else V))"
proof -
  let ?parts = "topic_parts T"
  let ?r1 = "create_nodes [] (root s) ?parts"
  let ?s1 = "s\<lparr>root := ?r1\<rparr>"
  obtain t where t: "find_node ?r1 ?parts = Some t"
    by (simp add: find_node_create_nodes)
  have p: "publish s T V retain src_cbk = (topic_publish ?s1 ?parts V retain src_cbk, Inr ())"
    using publish_value_topic[OF assms(1)] by (simp add: topic_find_create_def)
  have old: "get (fst (topic_find_create s T)) T = Inr (topic_value t)"
    using t by (simp add: get_find_node topic_find_create_def)
  have "get (topic_publish ?s1 ?parts V retain src_cbk) T
          = Inr (if py_eq (topic_value t) V then topic_value t else V)"
  proof (cases "py_eq (topic_value t) V")
    case True
    with t assms(2) have "topic_publish ?s1 ?parts V retain src_cbk = ?s1"
      by (simp add: topic_publish_def)
    with t True show ?thesis
      by (simp add: get_find_node)
  next
    case False
    with t assms(2)
    have "root (topic_publish ?s1 ?parts V retain src_cbk) = update_node (set_value V) ?r1 ?parts"
      by (simp add: topic_publish_def Let_def)
    then have "get (topic_publish ?s1 ?parts V retain src_cbk) T = Inr V"
      using t by (simp add: get_find_node find_node_update_node set_value_def)
    with False show ?thesis
      by simp
  qed
  with p old show ?thesis
    by simp
qed

text \<open>
  A new topic returns the value published; a float that is not a number, which equals
  nothing, is stored again and returned; \<open>True\<close> over a retained \<open>1\<close> is deduplicated.
\<close>

theorem publish_retain_get_witness:
  "value_topic ''hello/world'' \<and> py_bool (VBool True) \<and>
   snd (publish (init (Some ''hello'')) ''hello/world'' (VStr ''there'') (VBool True) VNone)
     = Inr () \<and>
   get (fst (publish (init (Some ''hello'')) ''hello/world'' (VStr ''there'') (VBool True) VNone))
     ''hello/world'' = Inr (VStr ''there'') \<and>
   get (fst (publish
               (fst (publish (init None) ''hello/world'' (VFloat FNaN) (VBool True) VNone))
               ''hello/world'' (VFloat FNaN) (VBool True) VNone))
     ''hello/world'' = Inr (VFloat FNaN)"
proof -
  have h1: "value_topic ''hello/world''"
    by (simp add: value_topic_def)
  have h2: "py_bool (VBool True)"
    by simp
  have a: "get (fst (publish (init (Some ''hello'')) ''hello/world'' (VStr ''there'') (VBool True)
                VNone)) ''hello/world'' = Inr (VStr ''there'')"
    by (simp add: engine_defs)
  have b: "get (fst (publish
               (fst (publish (init None) ''hello/world'' (VFloat FNaN) (VBool True) VNone))
               ''hello/world'' (VFloat FNaN) (VBool True) VNone))
     ''hello/world'' = Inr (VFloat FNaN)"
    by (simp add: engine_defs)
  from a b h1 h2 publish_retain_get[OF h1 h2, of "init (Some ''hello'')" "VStr ''there''" VNone]
  show ?thesis
    by simp
qed

text \<open>
  The claim as stated, for all topics and values, fails: the empty topic is rejected; a
  topic ending in \<^verbatim>\<open>$\<close> is a metadata write, after which \<^verbatim>\<open>get\<close> finds no retained value;
  a topic ending in \<^verbatim>\<open>?\<close> does nothing, and \<^verbatim>\<open>get\<close> finds no node; and with \<open>1\<close> retained
  at \<^verbatim>\<open>a\<close>, publishing \<open>True\<close> is deduplicated and \<^verbatim>\<open>get\<close> returns \<open>1\<close>.
\<close>

theorem publish_retain_get_counterexample:
  "publish (init None) [] (VInt 1) (VBool True) VNone = (init None, Inl ValueError) \<and>
   get (init None) [] = Inr VNone \<and>
   snd (publish (init None) ''a$'' (VInt 1) (VBool True) VNone) = Inr () \<and>
   get (fst (publish (init None) ''a$'' (VInt 1) (VBool True) VNone)) ''a$'' = Inr VNone \<and>
   snd (publish (init None) ''a?'' (VInt 1) (VBool True) VNone) = Inr () \<and>
   get (fst (publish (init None) ''a?'' (VInt 1) (VBool True) VNone)) ''a?'' = Inl KeyError \<and>
   snd (publish (fst (publish (init None) ''a'' (VInt 1) (VBool True) VNone))
          ''a'' (VBool True) (VBool True) VNone) = Inr () \<and>
   get (fst (publish (fst (publish (init None) ''a'' (VInt 1) (VBool True) VNone))
               ''a'' (VBool True) (VBool True) VNone)) ''a'' = Inr (VInt 1)"
  by (simp add: engine_defs)

lemma publish_node_calls_cbk:
  "map call_cbk (publish_node_calls r name x retain src_cbk subs) =
     filter (\<lambda>n. \<not> py_eq (VFn n) src_cbk) (map fst subs)"
  by (induction subs) auto

lemma publish_walk_calls_cbk:
  "map call_cbk (publish_walk_calls r name x retain src_cbk up) =
     filter (\<lambda>n. \<not> py_eq (VFn n) src_cbk) (map fst (concat (map topic_subscribers up)))"
  by (induction up) (auto simp: publish_node_calls_cbk)

lemma publish_node_calls_args:
  "c \<in> set (publish_node_calls r name x retain src_cbk subs) \<Longrightarrow>
     call_topic c = name \<and> call_value c = x \<and> call_retain c = Some retain \<and> call_tree c = r"
  by (induction subs) (auto split: if_splits)

lemma publish_walk_calls_args:
  "c \<in> set (publish_walk_calls r name x retain src_cbk up) \<Longrightarrow>
     call_topic c = name \<and> call_value c = x \<and> call_retain c = Some retain \<and> call_tree c = r"
  by (induction up) (auto dest: publish_node_calls_args)

text \<open>
  C4, as amended. For every value topic \<open>T\<close> and every value \<open>V\<close>, \<^verbatim>\<open>publish\<close> with a false
  \<^verbatim>\<open>retain\<close> succeeds; it clears the retained value of the node to \<open>None\<close> before it
  delivers the event: every callback is invoked against the tree that the publish leaves
  behind, in which the value is already absent. The callbacks invoked are the subscribers
  at the node and at each of its ancestors, in that order, without the excluded source;
  each receives \<open>V\<close> and the \<^verbatim>\<open>retain\<close> argument. Afterwards \<^verbatim>\<open>get(T)\<close> returns \<open>None\<close>.
\<close>

theorem publish_transient:
  assumes "value_topic T" and "\<not> py_bool retain"
  shows "snd (publish s T V retain src_cbk) = Inr () \<and>
         get (fst (publish s T V retain src_cbk)) T = Inr VNone \<and>
         (\<exists>new. calls (fst (publish s T V retain src_cbk)) = calls s @ new \<and>
            map call_cbk new =
              filter (\<lambda>n. \<not> py_eq (VFn n) src_cbk)
                (map fst (concat (map topic_subscribers
                   (walk_up (root (fst (publish s T V retain src_cbk))) (topic_parts T))))) \<and>
            (\<forall>c \<in> set new. call_value c = V \<and> call_retain c = Some retain \<and>
               call_tree c = root (fst (publish s T V retain src_cbk))))"
proof -
  let ?parts = "topic_parts T"
  let ?r1 = "create_nodes [] (root s) ?parts"
  let ?s1 = "s\<lparr>root := ?r1\<rparr>"
  let ?r2 = "update_node (set_value VNone) ?r1 ?parts"
  obtain t where t: "find_node ?r1 ?parts = Some t"
    by (simp add: find_node_create_nodes)
  let ?new = "publish_walk_calls ?r2 (topic_name t) V retain src_cbk (walk_up ?r2 ?parts)"
  have p: "publish s T V retain src_cbk = (topic_publish ?s1 ?parts V retain src_cbk, Inr ())"
    using publish_value_topic[OF assms(1)] by (simp add: topic_find_create_def)
  have q: "topic_publish ?s1 ?parts V retain src_cbk = s\<lparr>root := ?r2, calls := calls s @ ?new\<rparr>"
    using t assms(2) by (simp add: topic_publish_def Let_def)
  have g: "get (s\<lparr>root := ?r2, calls := calls s @ ?new\<rparr>) T = Inr VNone"
    using t by (simp add: get_find_node find_node_update_node set_value_def)
  have a: "\<forall>c \<in> set ?new. call_value c = V \<and> call_retain c = Some retain \<and> call_tree c = ?r2"
    using publish_walk_calls_args by blast
  show ?thesis
    unfolding p q using g a by (simp add: publish_walk_calls_cbk)
qed

theorem publish_transient_witness:
  "value_topic ''a'' \<and> \<not> py_bool (VBool False) \<and>
   get (fst (publish (fst (subscribe (init None) ''a'' (VFn 1) VNone VNone))
               ''a'' (VInt 2) (VBool False) VNone)) ''a'' = Inr VNone \<and>
   calls (fst (publish (fst (subscribe (init None) ''a'' (VFn 1) VNone VNone))
               ''a'' (VInt 2) (VBool False) VNone)) \<noteq> []"
proof -
  have h1: "value_topic ''a''"
    by (simp add: value_topic_def)
  have h2: "\<not> py_bool (VBool False)"
    by simp
  have "calls (fst (publish (fst (subscribe (init None) ''a'' (VFn 1) VNone VNone))
               ''a'' (VInt 2) (VBool False) VNone)) \<noteq> []"
    by (simp add: engine_defs)
  with h1 h2 publish_transient[OF h1 h2, of "fst (subscribe (init None) ''a'' (VFn 1) VNone VNone)" "VInt 2" VNone]
  show ?thesis
    by simp
qed

text \<open>
  The claim as stated has the value cleared only after the delivery. With \<open>1\<close> retained
  at \<^verbatim>\<open>a\<close> (which \<^verbatim>\<open>get\<close> returns before the publish), the transient publish of \<open>2\<close> calls the
  subscriber in a tree where the value of \<^verbatim>\<open>a\<close> is \<open>None\<close> already.
\<close>

theorem publish_transient_counterexample:
  "get (fst (subscribe (fst (publish (init None) ''a'' (VInt 1) (VBool True) VNone))
        ''a'' (VFn 1) (VBool True) VNone)) ''a'' = Inr (VInt 1) \<and>
   calls (fst (publish
      (fst (subscribe (fst (publish (init None) ''a'' (VInt 1) (VBool True) VNone))
        ''a'' (VFn 1) (VBool True) VNone))
      ''a'' (VInt 2) (VBool False) VNone)) =
     [\<lparr>call_cbk = 1, call_topic = ''a'', call_value = VInt 2, call_retain = Some (VBool False),
       call_tree = Topic [] VNone VNone [(''a'', Topic ''a'' VNone VNone [] [(1, VNone)])] []\<rparr>]"
  by (simp add: engine_defs)

text \<open>
  C6, as amended. The stored state does not distinguish a value that was never retained
  from a retained \<open>None\<close>: both are the value \<open>None\<close>. For every value topic \<open>T\<close> whose
  node does not exist or holds no retained value, \<^verbatim>\<open>publish(T, None, retain=true)\<close> is
  deduplicated and leaves the engine exactly as resolving the topic leaves it (no value
  stored, no callback invoked), and \<^verbatim>\<open>get(T)\<close> returns \<open>None\<close> after the publish as it does
  after resolving the topic alone.
\<close>

theorem publish_none_retained:
  assumes "value_topic T" and "py_bool retain"
    and "get s T = Inl KeyError \<or> get s T = Inr VNone"
  shows "publish s T VNone retain src_cbk = (fst (topic_find_create s T), Inr ()) \<and>
         get (fst (publish s T VNone retain src_cbk)) T = Inr VNone \<and>
         get (fst (topic_find_create s T)) T = Inr VNone"
proof -
  let ?parts = "topic_parts T"
  let ?r1 = "create_nodes [] (root s) ?parts"
  let ?s1 = "s\<lparr>root := ?r1\<rparr>"
  obtain t where t: "find_node ?r1 ?parts = Some t"
    by (simp add: find_node_create_nodes)
  have v: "topic_value t = VNone"
    using t assms(3)
    by (auto simp: find_node_create_nodes get_find_node split: option.splits)
  have p: "publish s T VNone retain src_cbk = (topic_publish ?s1 ?parts VNone retain src_cbk, Inr ())"
    using publish_value_topic[OF assms(1)] by (simp add: topic_find_create_def)
  have q: "topic_publish ?s1 ?parts VNone retain src_cbk = ?s1"
    using t v assms(2) by (simp add: topic_publish_def)
  have g: "get ?s1 T = Inr VNone"
    using t v by (simp add: get_find_node)
  show ?thesis
    unfolding p q using g by (simp add: topic_find_create_def)
qed

theorem publish_none_retained_witness:
  "value_topic ''a'' \<and> py_bool (VBool True) \<and>
   get (fst (subscribe (init None) ''a'' (VFn 1) VNone VNone)) ''a'' = Inr VNone \<and>
   get (fst (publish (fst (subscribe (init None) ''a'' (VFn 1) VNone VNone))
              ''a'' VNone (VBool True) VNone)) ''a'' = Inr VNone"
proof -
  have h1: "value_topic ''a''"
    by (simp add: value_topic_def)
  have h2: "py_bool (VBool True)"
    by simp
  have h3: "get (fst (subscribe (init None) ''a'' (VFn 1) VNone VNone)) ''a'' = Inr VNone"
    by (simp add: engine_defs)
  then have h3': "get (fst (subscribe (init None) ''a'' (VFn 1) VNone VNone)) ''a'' = Inl KeyError
     \<or> get (fst (subscribe (init None) ''a'' (VFn 1) VNone VNone)) ''a'' = Inr VNone"
    by simp
  from publish_none_retained[OF h1 h2 h3', of VNone] h1 h2 h3
  show ?thesis
    by simp
qed

text \<open>
  The claim as stated fails: on a topic that exists and was never retained, publishing
  \<open>None\<close> with \<^verbatim>\<open>retain=true\<close> returns the engine state unchanged, so nothing can tell the
  two apart.
\<close>

theorem publish_none_retained_counterexample:
  "publish (fst (subscribe (init None) ''a'' (VFn 1) VNone VNone)) ''a'' VNone (VBool True) VNone
     = (fst (subscribe (init None) ''a'' (VFn 1) VNone VNone), Inr ())"
  by (simp add: engine_defs)

section \<open>Subscriptions\<close>

text \<open>
  A callable is never equal to a tuple, so the membership test of \<^verbatim>\<open>_Topic.subscribe\<close>
  never finds the callback among the entries \<^verbatim>\<open>(callback, forward)\<close>.
\<close>

lemma callable_not_in_subscribers:
  "callable cbk \<Longrightarrow> \<not> py_in cbk (subscriber_tuples subs)"
  by (cases cbk; induction subs) (auto simp: py_in_def subscriber_tuples_def)

text \<open>
  C2. The claim is that a callback appears at most once in the subscriber list of a
  node, a second \<^verbatim>\<open>subscribe\<close> with the same callback appending nothing, so that one
  publish notifies it at most once. On the code, subscribing the callback \<open>1\<close> twice to
  \<^verbatim>\<open>a\<close> leaves two entries for it, and one publish to \<^verbatim>\<open>a\<close> invokes it twice.
\<close>

theorem subscribe_twice_notified_twice:
  "publish
     (fst (subscribe (fst (subscribe (init None) ''a'' (VFn 1) VNone VNone))
             ''a'' (VFn 1) VNone VNone))
     ''a'' (VInt 3) VNone VNone =
   (\<lparr>topic_prefix = [],
     root = Topic [] VNone VNone
              [(''a'', Topic ''a'' VNone VNone [] [(1, VNone), (1, VNone)])] [],
     calls =
       [\<lparr>call_cbk = 1, call_topic = ''a'', call_value = VInt 3, call_retain = Some VNone,
         call_tree = Topic [] VNone VNone
                       [(''a'', Topic ''a'' VNone VNone [] [(1, VNone), (1, VNone)])] []\<rparr>,
        \<lparr>call_cbk = 1, call_topic = ''a'', call_value = VInt 3, call_retain = Some VNone,
         call_tree = Topic [] VNone VNone
                       [(''a'', Topic ''a'' VNone VNone [] [(1, VNone), (1, VNone)])] []\<rparr>]\<rparr>,
    Inr ())"
  by (simp add: engine_defs)

section \<open>Metadata\<close>

text \<open>
  C1. The claim is that \<^verbatim>\<open>publish(foo$, None)\<close> inside the namespace of the engine
  re-emits the stored metadata of \<^verbatim>\<open>foo\<close> to the forward subscribers, and emits nothing
  when there is no metadata. On the code the branch reads the retained value of the node,
  not its metadata: with metadata stored for \<^verbatim>\<open>foo\<close> and no retained value nothing is
  emitted, and with a retained value \<open>5\<close> and no metadata the event \<^verbatim>\<open>(foo$, 5)\<close> is
  emitted.
\<close>

theorem metadata_read_emits_value:
  "publish
     (fst (subscribe (fst (meta (init None) ''foo'' (VDict (fmap_of_list [(''type'', VStr ''u32'')]))))
             [] (VFn 1) VNone (VBool True)))
     ''foo$'' VNone VNone VNone =
   (\<lparr>topic_prefix = [],
     root = Topic [] VNone VNone
              [(''foo'', Topic ''foo'' VNone (VDict (fmap_of_list [(''type'', VStr ''u32'')])) [] [])]
              [(1, VBool True)],
     calls = []\<rparr>,
    Inr ()) \<and>
   publish
     (fst (subscribe (fst (publish (init None) ''foo'' (VInt 5) (VBool True) VNone))
             [] (VFn 1) (VBool True) (VBool True)))
     ''foo$'' VNone VNone VNone =
   (\<lparr>topic_prefix = [],
     root = Topic [] VNone VNone [(''foo'', Topic ''foo'' (VInt 5) VNone [] [])] [(1, VBool True)],
     calls =
       [\<lparr>call_cbk = 1, call_topic = ''foo$'', call_value = VInt 5,
         call_retain = Some (VBool True),
         call_tree = Topic [] VNone VNone [(''foo'', Topic ''foo'' (VInt 5) VNone [] [])]
                       [(1, VBool True)]\<rparr>]\<rparr>,
    Inr ())"
  by (simp add: engine_defs)

lemma root_topic_forward [simp]: "root (topic_forward s parts topic v retain src_cbk tp) = root s"
  by (simp add: topic_forward_def split: option.split)

lemma root_meta_send_all [simp]: "root (meta_send_all s parts src_cbk) = root s"
  by (simp add: meta_send_all_def split: option.split)

lemma find_node_existing_base: "\<exists>t. find_node r (existing_base r parts) = Some t"
  by (induction parts arbitrary: r) (auto split: option.splits)

text \<open>
  C10, as amended. For every metadata topic \<open>T\<close> other than the broadcast topic \<^verbatim>\<open>$\<close>
  itself, whether \<open>T\<close> belongs to the engine's own namespace is the test
  \<^verbatim>\<open>T.startswith(prefix)\<close> on the raw strings, which holds exactly when \<open>T\<close> is the prefix
  followed by any characters at all; the empty prefix claims every topic. A metadata write
  \<^verbatim>\<open>(name$, v)\<close> is stored in the node when the test holds and leaves the node as it is
  when it fails. A metadata read \<^verbatim>\<open>(name$, None)\<close> changes nothing in the resolved tree; the
  calls it makes are the forward of what the node holds (none when it holds nothing) when
  the test holds, and the forward of \<open>None\<close> when it fails. A subtree request \<^verbatim>\<open>(path/$)\<close>
  resolves the path and makes the calls of the metadata walk of that subtree when the test
  holds; when it fails it leaves the tree as it is and makes the calls of the forward of
  \<open>None\<close> from the deepest existing node. The topic \<^verbatim>\<open>$\<close> takes no prefix test: whatever the
  prefix, it is answered from the engine's own namespace, by the metadata walk of the
  subtree at the prefix and the forward of \<^verbatim>\<open>($, None)\<close> at the root.
\<close>

theorem namespace_prefix_test:
  assumes "T \<noteq> []" and "last T = CHR ''$''" and "T \<noteq> ''$''"
  shows "(\<not> endswith T ''/$'' \<and> v \<noteq> VNone \<longrightarrow>
           (\<exists>t. find_node (root (fst (topic_find_create s (butlast T)))) (topic_parts (butlast T))
                  = Some t \<and>
                find_node (root (fst (publish s T v retain src_cbk))) (topic_parts (butlast T))
                  = Some (if startswith T (topic_prefix s) then set_meta v t else t))) \<and>
         (\<not> endswith T ''/$'' \<and> v = VNone \<longrightarrow>
           (\<exists>t. find_node (root (fst (topic_find_create s (butlast T)))) (topic_parts (butlast T))
                  = Some t \<and>
                root (fst (publish s T v retain src_cbk))
                  = root (fst (topic_find_create s (butlast T))) \<and>
                calls (fst (publish s T v retain src_cbk)) =
                  calls s @
                  (if startswith T (topic_prefix s) \<and> topic_value t = VNone then []
                   else forward_walk_calls (root (fst (topic_find_create s (butlast T)))) T
                          (if startswith T (topic_prefix s) then topic_value t else VNone)
                          (VBool True) src_cbk True
                          (walk_up (root (fst (topic_find_create s (butlast T))))
                             (topic_parts (butlast T)))))) \<and>
         (endswith T ''/$'' \<and> startswith T (topic_prefix s) \<longrightarrow>
           (\<exists>t. find_node (root (fst (topic_find_create s T))) (topic_parts T) = Some t \<and>
                root (fst (publish s T v retain src_cbk)) = root (fst (topic_find_create s T)) \<and>
                calls (fst (publish s T v retain src_cbk)) =
                  calls s @
                  meta_send_all_calls (root (fst (topic_find_create s T)))
                    (tl (walk_up (root (fst (topic_find_create s T))) (topic_parts T)))
                    src_cbk t)) \<and>
         (endswith T ''/$'' \<and> \<not> startswith T (topic_prefix s) \<longrightarrow>
            root (fst (publish s T v retain src_cbk)) = root s \<and>
            calls (fst (publish s T v retain src_cbk)) =
              calls s @
              forward_walk_calls (root s) T VNone retain src_cbk True
                (walk_up (root s) (topic_find_existing_base s T))) \<and>
         (startswith T (topic_prefix s) \<longleftrightarrow> (\<exists>rest. T = topic_prefix s @ rest)) \<and>
         (topic_prefix s = [] \<longrightarrow> startswith T (topic_prefix s)) \<and>
         (\<exists>t. find_node (root (fst (topic_find_create s (topic_prefix s))))
                (topic_parts (topic_prefix s)) = Some t \<and>
              root (fst (publish s ''$'' v retain src_cbk))
                = root (fst (topic_find_create s (topic_prefix s))) \<and>
              calls (fst (publish s ''$'' v retain src_cbk)) =
                calls s @
                meta_send_all_calls (root (fst (topic_find_create s (topic_prefix s))))
                  (tl (walk_up (root (fst (topic_find_create s (topic_prefix s))))
                         (topic_parts (topic_prefix s))))
                  src_cbk t @
                forward_node_calls (root (fst (topic_find_create s (topic_prefix s)))) ''$'' VNone
                  retain src_cbk
                  (topic_subscribers (root (fst (topic_find_create s (topic_prefix s))))))"
proof -
  let ?parts = "topic_parts (butlast T)"
  let ?r1 = "create_nodes [] (root s) ?parts"
  obtain t where t: "find_node ?r1 ?parts = Some t"
    by (simp add: find_node_create_nodes)
  have a: "\<not> endswith T ''/$'' \<and> v \<noteq> VNone \<longrightarrow>
           find_node (root (fst (publish s T v retain src_cbk))) ?parts
             = Some (if startswith T (topic_prefix s) then set_meta v t else t)"
    using assms t by (simp add: publish_def topic_find_create_def find_node_update_node)
  have a': "\<not> endswith T ''/$'' \<and> v = VNone \<longrightarrow>
                root (fst (publish s T v retain src_cbk)) = ?r1 \<and>
                calls (fst (publish s T v retain src_cbk)) =
                  calls s @
                  (if startswith T (topic_prefix s) \<and> topic_value t = VNone then []
                   else forward_walk_calls ?r1 T
                          (if startswith T (topic_prefix s) then topic_value t else VNone)
                          (VBool True) src_cbk True (walk_up ?r1 ?parts))"
    using assms t by (simp add: publish_def topic_find_create_def topic_forward_def)
  let ?ps = "topic_parts T"
  let ?r2 = "create_nodes [] (root s) ?ps"
  obtain t2 where t2: "find_node ?r2 ?ps = Some t2"
    by (simp add: find_node_create_nodes)
  have b: "endswith T ''/$'' \<and> startswith T (topic_prefix s) \<longrightarrow>
                root (fst (publish s T v retain src_cbk)) = ?r2 \<and>
                calls (fst (publish s T v retain src_cbk)) =
                  calls s @ meta_send_all_calls ?r2 (tl (walk_up ?r2 ?ps)) src_cbk t2"
    using assms t2 by (simp add: publish_def topic_find_create_def meta_send_all_def)
  obtain t3 where t3: "find_node (root s) (existing_base (root s) ?ps) = Some t3"
    using find_node_existing_base by blast
  have b': "endswith T ''/$'' \<and> \<not> startswith T (topic_prefix s) \<longrightarrow>
            root (fst (publish s T v retain src_cbk)) = root s \<and>
            calls (fst (publish s T v retain src_cbk)) =
              calls s @
              forward_walk_calls (root s) T VNone retain src_cbk True
                (walk_up (root s) (topic_find_existing_base s T))"
    using assms t3
    by (simp add: publish_def topic_forward_def topic_find_existing_base_def)
  have c: "topic_prefix s = [] \<longrightarrow> startswith T (topic_prefix s)"
    by (simp add: startswith_def)
  have d: "startswith T (topic_prefix s) \<longleftrightarrow> (\<exists>rest. T = topic_prefix s @ rest)"
    unfolding startswith_def by (metis append_eq_conv_conj append_take_drop_id)
  let ?pp = "topic_parts (topic_prefix s)"
  let ?r0 = "create_nodes [] (root s) ?pp"
  obtain t0 where t0: "find_node ?r0 ?pp = Some t0"
    by (simp add: find_node_create_nodes)
  have e: "root (fst (publish s ''$'' v retain src_cbk)) = ?r0 \<and>
           calls (fst (publish s ''$'' v retain src_cbk)) =
             calls s @ meta_send_all_calls ?r0 (tl (walk_up ?r0 ?pp)) src_cbk t0 @
             forward_node_calls ?r0 ''$'' VNone retain src_cbk (topic_subscribers ?r0)"
    using t0
    by (simp add: publish_def topic_find_create_def meta_send_all_def topic_forward_def
        walk_up_def)
  from a a' b b' c d e t t2 t0 show ?thesis
    by (simp add: topic_find_create_def)
qed

text \<open>The prefix \<^verbatim>\<open>hello\<close> claims \<^verbatim>\<open>helloworld$\<close>: the write is stored.\<close>

theorem namespace_prefix_test_witness:
  "''helloworld$'' \<noteq> [] \<and> last ''helloworld$'' = CHR ''$'' \<and> ''helloworld$'' \<noteq> ''$'' \<and>
   \<not> endswith ''helloworld$'' ''/$'' \<and> VInt 7 \<noteq> VNone \<and>
   topic_prefix (init (Some ''hello'')) = ''hello'' \<and>
   startswith ''helloworld$'' (topic_prefix (init (Some ''hello''))) \<and>
   find_node (root (fst (publish (init (Some ''hello'')) ''helloworld$'' (VInt 7) VNone VNone)))
     (topic_parts ''helloworld'') = Some (Topic ''helloworld'' VNone (VInt 7) [] [])"
proof -
  have h1: "''helloworld$'' \<noteq> []" and h2: "last ''helloworld$'' = CHR ''$''"
    and h3: "''helloworld$'' \<noteq> ''$''"
    by simp_all
  have h4: "\<not> endswith ''helloworld$'' ''/$''"
    by (simp add: endswith_def)
  have h5: "topic_prefix (init (Some ''hello'')) = ''hello''"
    by (simp add: init_def)
  have h6: "find_node (root (fst (topic_find_create (init (Some ''hello'')) (butlast ''helloworld$''))))
              (topic_parts (butlast ''helloworld$'')) = Some (Topic ''helloworld'' VNone VNone [] [])"
    by (simp add: engine_defs)
  from namespace_prefix_test[OF h1 h2 h3, of "VInt 7" "init (Some ''hello'')" VNone VNone] h4 h5 h6
  show ?thesis
    by (simp add: set_meta_def)
qed

text \<open>
  The claim as stated, for every metadata topic, fails at the topic \<^verbatim>\<open>$\<close>: on the engine
  with the prefix \<^verbatim>\<open>hello\<close>, \<^verbatim>\<open>$\<close> does not start with the prefix, and its publish is
  answered from the engine's own namespace with the metadata of \<^verbatim>\<open>hello/world\<close>.
\<close>

theorem namespace_prefix_test_counterexample:
  "\<not> startswith ''$'' (topic_prefix (init (Some ''hello''))) \<and>
   calls (fst (publish
      (fst (subscribe
              (fst (meta (init (Some ''hello'')) ''hello/world'' (VInt 7)))
              [] (VFn 1) VNone (VBool True)))
      ''$'' VNone VNone VNone)) =
     [\<lparr>call_cbk = 1, call_topic = ''hello/world$'', call_value = VInt 7,
       call_retain = Some (VBool False),
       call_tree = Topic [] VNone VNone
                     [(''hello'', Topic ''hello'' VNone VNone
                                [(''world'', Topic ''hello/world'' VNone (VInt 7) [] [])] [])]
                     [(1, VBool True)]\<rparr>,
      \<lparr>call_cbk = 1, call_topic = ''$'', call_value = VNone, call_retain = Some VNone,
       call_tree = Topic [] VNone VNone
                     [(''hello'', Topic ''hello'' VNone VNone
                                [(''world'', Topic ''hello/world'' VNone (VInt 7) [] [])] [])]
                     [(1, VBool True)]\<rparr>]"
  by (simp add: engine_defs)

section \<open>Failures\<close>

lemma topic_subscribe_not_callable:
  "\<not> callable cbk \<Longrightarrow> topic_subscribe s parts cbk skip_retained forward = (s, Inl ValueError)"
  by (simp add: topic_subscribe_def)

text \<open>
  C3, as amended. An operation that fails before it resolves its topic leaves the engine
  as it was: \<^verbatim>\<open>publish\<close> and \<^verbatim>\<open>meta\<close> with an empty topic, \<^verbatim>\<open>get\<close> on an unresolved path
  (which returns a result only), \<^verbatim>\<open>create\<close> on a topic that exists. \<^verbatim>\<open>subscribe\<close> with
  a callback that is not callable fails after the nodes of the path have been created:
  the state is the one that resolving the topic leaves, with no subscriber added and no
  callback invoked. \<^verbatim>\<open>create\<close> with a \<^verbatim>\<open>default\<close> and a \<^verbatim>\<open>retain\<close> that \<^verbatim>\<open>_as_bool\<close>
  rejects fails after the node has been created and the metadata stored, with nothing
  published and nobody subscribed.
\<close>

theorem failed_operation_state:
  "publish s [] v retain src_cbk = (s, Inl ValueError) \<and>
   meta s [] m = (s, Inl IndexError) \<and>
   (topic_find s T1 = None \<longrightarrow> get s T1 = Inl KeyError) \<and>
   (topic_find s T2 \<noteq> None \<longrightarrow>
      create s T2 m cbk2 skip_retained forward = (s, Inl ValueError)) \<and>
   (\<not> callable cbk \<longrightarrow>
      subscribe s T1 cbk skip_retained forward = (fst (topic_find_create s T1), Inl ValueError)) \<and>
   (topic_find s T1 = None \<and> ''default'' |\<in>| fmdom d \<and>
    as_bool (case fmlookup d ''retain'' of None \<Rightarrow> VInt 0 | Some x \<Rightarrow> x) = Inl e \<longrightarrow>
      create s T1 (VDict d) cbk2 skip_retained forward =
        ((fst (topic_find_create s T1))
           \<lparr>root := update_node (set_meta (VDict d)) (root (fst (topic_find_create s T1)))
                      (topic_parts T1)\<rparr>,
         Inl e))"
proof -
  have 1: "publish s [] v retain src_cbk = (s, Inl ValueError)"
    by (simp add: publish_def)
  have 2: "meta s [] m = (s, Inl IndexError)"
    by (simp add: meta_def)
  have 3: "topic_find s T1 = None \<longrightarrow> get s T1 = Inl KeyError"
    by (simp add: get_def)
  have 4: "topic_find s T2 \<noteq> None \<longrightarrow>
      create s T2 m cbk2 skip_retained forward = (s, Inl ValueError)"
    by (simp add: create_def)
  have 5: "\<not> callable cbk \<longrightarrow>
      subscribe s T1 cbk skip_retained forward = (fst (topic_find_create s T1), Inl ValueError)"
    by (simp add: subscribe_def topic_find_create_def topic_subscribe_not_callable)
  have 6: "topic_find s T1 = None \<and> ''default'' |\<in>| fmdom d \<and>
    as_bool (case fmlookup d ''retain'' of None \<Rightarrow> VInt 0 | Some x \<Rightarrow> x) = Inl e \<longrightarrow>
      create s T1 (VDict d) cbk2 skip_retained forward =
        ((fst (topic_find_create s T1))
           \<lparr>root := update_node (set_meta (VDict d)) (root (fst (topic_find_create s T1)))
                      (topic_parts T1)\<rparr>,
         Inl e)"
    by (simp add: create_def topic_find_create_def has_default_def)
  from 1 2 3 4 5 6 show ?thesis
    by blast
qed

theorem failed_operation_state_witness:
  "topic_find (fst (subscribe (init None) ''x'' (VFn 1) VNone VNone)) ''a/b'' = None \<and>
   get (fst (subscribe (init None) ''x'' (VFn 1) VNone VNone)) ''a/b'' = Inl KeyError \<and>
   topic_find (fst (subscribe (init None) ''x'' (VFn 1) VNone VNone)) ''x'' \<noteq> None \<and>
   create (fst (subscribe (init None) ''x'' (VFn 1) VNone VNone)) ''x'' VNone VNone VNone VNone
     = (fst (subscribe (init None) ''x'' (VFn 1) VNone VNone), Inl ValueError) \<and>
   \<not> callable (VInt 3) \<and>
   snd (subscribe (fst (subscribe (init None) ''x'' (VFn 1) VNone VNone)) ''a/b'' (VInt 3)
          VNone VNone) = Inl ValueError \<and>
   ''default'' |\<in>| fmdom (fmap_of_list [(''default'', VInt 5), (''retain'', VStr ''maybe'')]) \<and>
   as_bool (case fmlookup (fmap_of_list [(''default'', VInt 5), (''retain'', VStr ''maybe'')])
                   ''retain'' of None \<Rightarrow> VInt 0 | Some x \<Rightarrow> x) = Inl ValueError \<and>
   snd (create (fst (subscribe (init None) ''x'' (VFn 1) VNone VNone)) ''a/b''
          (VDict (fmap_of_list [(''default'', VInt 5), (''retain'', VStr ''maybe'')]))
          VNone VNone VNone) = Inl ValueError"
proof -
  let ?s = "fst (subscribe (init None) ''x'' (VFn 1) VNone VNone)"
  let ?d = "fmap_of_list [(''default'', VInt 5), (''retain'', VStr ''maybe'')]"
  have h1: "topic_find ?s ''a/b'' = None"
    by (simp add: engine_defs)
  have h2: "topic_find ?s ''x'' \<noteq> None"
    by (simp add: engine_defs)
  have h3: "\<not> callable (VInt 3)"
    by simp
  have h4: "''default'' |\<in>| fmdom ?d"
    by simp
  have h5: "as_bool (case fmlookup ?d ''retain'' of None \<Rightarrow> VInt 0 | Some x \<Rightarrow> x) = Inl ValueError"
    by (simp add: engine_defs)
  from failed_operation_state[of ?s VNone VNone VNone VNone "''a/b''" "''x''" VNone VNone VNone
      "VInt 3" ?d ValueError] h1 h2 h3 h4 h5
  show ?thesis
    by simp
qed

text \<open>
  The claim as stated has the tree unchanged after every failure. On the empty engine
  \<^verbatim>\<open>subscribe\<close> of the integer \<open>3\<close> to \<^verbatim>\<open>a/b\<close> fails and leaves the nodes \<^verbatim>\<open>a\<close> and \<^verbatim>\<open>a/b\<close>
  behind, and \<^verbatim>\<open>create\<close> of \<^verbatim>\<open>a\<close> with the retain spelling \<^verbatim>\<open>maybe\<close> fails and leaves
  the node with its metadata behind.
\<close>

theorem failed_operation_state_counterexample:
  "root (init None) = Topic [] VNone VNone [] [] \<and>
   subscribe (init None) ''a/b'' (VInt 3) VNone VNone =
     (\<lparr>topic_prefix = [],
       root = Topic [] VNone VNone
                [(''a'', Topic ''a'' VNone VNone [(''b'', Topic ''a/b'' VNone VNone [] [])] [])] [],
       calls = []\<rparr>,
      Inl ValueError) \<and>
   create (init None) ''a''
       (VDict (fmap_of_list [(''default'', VInt 5), (''retain'', VStr ''maybe'')]))
       VNone VNone VNone =
     (\<lparr>topic_prefix = [],
       root = Topic [] VNone VNone
                [(''a'', Topic ''a'' VNone
                           (VDict (fmap_of_list [(''default'', VInt 5), (''retain'', VStr ''maybe'')]))
                           [] [])] [],
       calls = []\<rparr>,
      Inl ValueError)"
  by (simp add: engine_defs)

section \<open>Node names\<close>

lemma names_ok_iff:
  "names_ok sofar t \<longleftrightarrow>
     topic_name t = join ''/'' sofar \<and>
     (\<forall>kc \<in> set (topic_children t). names_ok (sofar @ [fst kc]) (snd kc))"
  by (cases t) simp

lemma set_child_put: "kc \<in> set (child_put part c cs) \<Longrightarrow> kc \<in> set cs \<or> kc = (part, c)"
  by (induction cs) (auto split: if_splits)

lemma names_ok_create_nodes:
  "names_ok sofar t \<Longrightarrow> names_ok sofar (create_nodes sofar t parts)"
proof (induction parts arbitrary: t sofar)
  case Nil
  then show ?case by simp
next
  case (Cons part parts)
  show ?case
  proof (cases "map_of (topic_children t) part")
    case None
    have "names_ok (sofar @ [part]) (Topic (join ''/'' (sofar @ [part])) VNone VNone [] [])"
      by simp
    then have "names_ok (sofar @ [part])
                 (create_nodes (sofar @ [part])
                    (Topic (join ''/'' (sofar @ [part])) VNone VNone [] []) parts)"
      by (rule Cons.IH)
    with None Cons.prems show ?thesis
      by (auto simp: names_ok_iff[of sofar])
  next
    case (Some child)
    then have "(part, child) \<in> set (topic_children t)"
      by (rule map_of_SomeD)
    with Cons.prems have "names_ok (sofar @ [part]) child"
      by (auto simp: names_ok_iff[of sofar])
    then have "names_ok (sofar @ [part]) (create_nodes (sofar @ [part]) child parts)"
      by (rule Cons.IH)
    with Some Cons.prems show ?thesis
      by (auto simp: names_ok_iff[of sofar] dest!: set_child_put)
  qed
qed

lemma names_ok_update_node:
  assumes f: "\<And>sofar t. names_ok sofar t \<Longrightarrow> names_ok sofar (f t)"
  shows "names_ok sofar t \<Longrightarrow> names_ok sofar (update_node f t parts)"
proof (induction parts arbitrary: t sofar)
  case Nil
  then show ?case by (simp add: f)
next
  case (Cons part parts)
  show ?case
  proof (cases "map_of (topic_children t) part")
    case None
    with Cons.prems show ?thesis by simp
  next
    case (Some child)
    then have "(part, child) \<in> set (topic_children t)"
      by (rule map_of_SomeD)
    with Cons.prems have "names_ok (sofar @ [part]) child"
      by (auto simp: names_ok_iff[of sofar])
    then have "names_ok (sofar @ [part]) (update_node f child parts)"
      by (rule Cons.IH)
    with Some Cons.prems show ?thesis
      by (auto simp: names_ok_iff[of sofar] dest!: set_child_put)
  qed
qed

lemma names_ok_set:
  "names_ok sofar t \<Longrightarrow> names_ok sofar (set_value x t)"
  "names_ok sofar t \<Longrightarrow> names_ok sofar (set_meta m t)"
  "names_ok sofar t \<Longrightarrow> names_ok sofar (set_subscribers subs t)"
  by (simp_all add: names_ok_iff[of sofar] set_value_def set_meta_def set_subscribers_def)

lemma names_ok_init: "names_ok [] (root (init p))"
  by (simp add: init_def)

lemma names_ok_topic_publish:
  "names_ok [] (root s) \<Longrightarrow> names_ok [] (root (topic_publish s parts x retain src_cbk))"
  by (auto simp: topic_publish_def Let_def names_ok_update_node names_ok_set split: option.split)

lemma names_ok_topic_subscribe:
  "names_ok [] (root s) \<Longrightarrow>
     names_ok [] (root (fst (topic_subscribe s parts cbk skip_retained forward)))"
  by (auto simp: topic_subscribe_def Let_def names_ok_update_node names_ok_set split: option.split)

lemma names_ok_publish:
  "names_ok [] (root s) \<Longrightarrow> names_ok [] (root (fst (publish s topic v retain src_cbk)))"
  by (auto simp: publish_def topic_find_create_def Let_def names_ok_create_nodes
      names_ok_update_node names_ok_set names_ok_topic_publish split: option.split)

lemma names_ok_meta:
  "names_ok [] (root s) \<Longrightarrow> names_ok [] (root (fst (meta s topic m)))"
  by (simp add: meta_def names_ok_publish)

lemma names_ok_subscribe:
  "names_ok [] (root s) \<Longrightarrow>
     names_ok [] (root (fst (subscribe s topic cbk skip_retained forward)))"
  by (simp add: subscribe_def topic_find_create_def names_ok_topic_subscribe names_ok_create_nodes)

lemma names_ok_unsubscribe:
  "names_ok [] (root s) \<Longrightarrow> names_ok [] (root (fst (unsubscribe s topic cbk)))"
  by (simp add: unsubscribe_def topic_find_create_def topic_unsubscribe_def
      names_ok_create_nodes names_ok_update_node names_ok_set)

lemma names_ok_create:
  "names_ok [] (root s) \<Longrightarrow>
     names_ok [] (root (fst (create s topic m subscriber_cbk skip_retained forward)))"
  by (auto simp: create_def topic_find_create_def Let_def names_ok_create_nodes
      names_ok_update_node names_ok_set names_ok_topic_publish names_ok_topic_subscribe
      split: option.split sum.split bool.split pyval.split)

lemma names_ok_find_node:
  "names_ok sofar t \<Longrightarrow> find_node t parts = Some x \<Longrightarrow> topic_name x = join ''/'' (sofar @ parts)"
proof (induction parts arbitrary: t sofar)
  case Nil
  then show ?case by (cases t) auto
next
  case (Cons part parts)
  from Cons.prems(2) obtain child where c: "map_of (topic_children t) part = Some child"
    and f: "find_node child parts = Some x"
    by (auto split: option.splits)
  from c have "(part, child) \<in> set (topic_children t)"
    by (rule map_of_SomeD)
  with Cons.prems(1) have "names_ok (sofar @ [part]) child"
    by (cases t) auto
  from Cons.IH[OF this f] show ?case
    by simp
qed

section \<open>The metadata broadcast\<close>

lemma forward_node_calls_member:
  "(n, fwd) \<in> set subs \<Longrightarrow> py_bool fwd \<Longrightarrow> \<not> py_eq (VFn n) src_cbk \<Longrightarrow>
     \<lparr>call_cbk = n, call_topic = topic, call_value = v, call_retain = Some retain, call_tree = r\<rparr>
       \<in> set (forward_node_calls r topic v retain src_cbk subs)"
  by (induction subs) auto

lemma forward_walk_calls_member:
  "t \<in> set up \<Longrightarrow> (n, fwd) \<in> set (topic_subscribers t) \<Longrightarrow> py_bool fwd \<Longrightarrow>
   \<not> py_eq (VFn n) src_cbk \<Longrightarrow>
     \<lparr>call_cbk = n, call_topic = topic, call_value = v, call_retain = Some retain, call_tree = r\<rparr>
       \<in> set (forward_walk_calls r topic v retain src_cbk True up)"
  by (induction up) (auto simp: forward_node_calls_member)

lemma meta_send_all_calls_covers:
  "find_node t parts = Some x \<Longrightarrow> topic_meta x \<noteq> VNone \<Longrightarrow>
     set (forward_walk_calls r (topic_name x @ ''$'') (topic_meta x) (VBool False) src_cbk True
            (rev (path_nodes t parts) @ up))
       \<subseteq> set (meta_send_all_calls r up src_cbk t)"
proof (induction parts arbitrary: t up)
  case Nil
  then show ?case by (cases t) auto
next
  case (Cons part parts)
  from Cons.prems(1) obtain child where c: "map_of (topic_children t) part = Some child"
    and f: "find_node child parts = Some x"
    by (auto split: option.splits)
  from c have m: "(part, child) \<in> set (topic_children t)"
    by (rule map_of_SomeD)
  have "set (forward_walk_calls r (topic_name x @ ''$'') (topic_meta x) (VBool False) src_cbk True
            (rev (path_nodes child parts) @ (t # up)))
       \<subseteq> set (meta_send_all_calls r (t # up) src_cbk child)"
    by (rule Cons.IH[OF f Cons.prems(2)])
  moreover have "set (meta_send_all_calls r (t # up) src_cbk child)
       \<subseteq> set (meta_send_all_calls r up src_cbk t)"
    using m by (cases t) force
  ultimately show ?case
    using c by simp
qed

lemma root_in_chain:
  assumes "find_node r parts = Some t"
  shows "r \<in> set (rev (path_nodes t rest) @ tl (walk_up r parts))"
proof (cases parts)
  case Nil
  with assms have "t = r" by simp
  then show ?thesis by (cases rest) auto
next
  case (Cons part parts')
  with assms obtain child where c: "map_of (topic_children r) part = Some child"
    by (auto split: option.splits)
  then obtain ns where "path_nodes r parts = r # ns" and "ns \<noteq> []"
    using Cons by (cases parts') (auto split: option.splits)
  then have "tl (walk_up r parts) = tl (rev ns) @ [r]"
    by (simp add: walk_up_def)
  then show ?thesis
    by simp
qed

lemma find_node_append:
  "find_node r (parts @ rest) = Some x \<Longrightarrow>
     \<exists>t. find_node r parts = Some t \<and> find_node t rest = Some x"
  by (induction parts arbitrary: r) (auto split: option.splits)

lemma forward_node_calls_append:
  "forward_node_calls r topic v retain src_cbk (xs @ ys) =
     forward_node_calls r topic v retain src_cbk xs
     @ forward_node_calls r topic v retain src_cbk ys"
  by (induction xs) auto

lemma topic_prefix_topic_forward [simp]:
  "topic_prefix (topic_forward s parts topic v retain src_cbk tp) = topic_prefix s"
  by (simp add: topic_forward_def split: option.split)

lemma prefix_of_ab:
  assumes "startswith ''a/b'' p"
  shows "p = [] \<or> p = ''a'' \<or> p = ''a/'' \<or> p = ''a/b''"
proof -
  from assms have e: "take (length p) ''a/b'' = p"
    by (simp add: startswith_def)
  then have "length p = min (length p) 3"
    by (metis length_take length_Cons list.size(3) numeral_3_eq_3 min.commute)
  then have "length p = 0 \<or> length p = 1 \<or> length p = 2 \<or> length p = 3"
    by linarith
  then show ?thesis
    using e by (elim disjE) (simp_all add: numeral_2_eq_2 numeral_3_eq_3)
qed

lemma prefix_parts_ab:
  assumes "startswith ''a/b'' p"
  shows "\<exists>rest. topic_parts p @ rest = [''a'', ''b'']"
  using prefix_of_ab[OF assms]
  by (elim disjE) (simp_all add: topic_parts_def strip_topic_def)

lemma prefix_ab_meta:
  assumes "startswith ''a/b'' p"
  shows "startswith ''a/b$'' p"
  using prefix_of_ab[OF assms]
  by (elim disjE) (simp_all add: startswith_def)

text \<open>
  C8. On an engine whose prefix is a string prefix of \<^verbatim>\<open>a/b\<close> (the empty prefix included),
  in any state with well-named nodes: after \<^verbatim>\<open>meta("a/b", M)\<close> with a metadata \<open>M\<close> that is
  not \<open>None\<close>, subscribing a callback at the root topic with a true \<^verbatim>\<open>forward\<close>, and then
  publishing \<^verbatim>\<open>("$", None)\<close>, all three succeed, and the calls made by the publish contain
  the event \<^verbatim>\<open>("a/b$", M)\<close> for that callback and end with the event \<^verbatim>\<open>("$", None)\<close> for it.
\<close>

theorem meta_broadcast:
  assumes pre: "startswith ''a/b'' (topic_prefix s)" and ok: "names_ok [] (root s)"
    and M: "M \<noteq> VNone" and fwd: "py_bool forward"
  shows "snd (meta s ''a/b'' M) = Inr () \<and>
         snd (subscribe (fst (meta s ''a/b'' M)) [] (VFn n) skip_retained forward) = Inr () \<and>
         snd (publish (fst (subscribe (fst (meta s ''a/b'' M)) [] (VFn n) skip_retained forward))
                ''$'' VNone retain VNone) = Inr () \<and>
         (\<exists>before between.
            calls (fst (publish
                     (fst (subscribe (fst (meta s ''a/b'' M)) [] (VFn n) skip_retained forward))
                     ''$'' VNone retain VNone)) =
              calls (fst (subscribe (fst (meta s ''a/b'' M)) [] (VFn n) skip_retained forward))
              @ before
              @ \<lparr>call_cbk = n, call_topic = ''a/b$'', call_value = M,
                  call_retain = Some (VBool False),
                  call_tree = root (fst (subscribe (fst (meta s ''a/b'' M)) [] (VFn n)
                                           skip_retained forward))\<rparr>
              # between
              @ [\<lparr>call_cbk = n, call_topic = ''$'', call_value = VNone,
                   call_retain = Some retain,
                   call_tree = root (fst (subscribe (fst (meta s ''a/b'' M)) [] (VFn n)
                                            skip_retained forward))\<rparr>])"
proof -
  define ab where "ab = [''a'', ''b'']"
  define P where "P = topic_prefix s"
  define r1' where "r1' = create_nodes [] (root s) ab"
  define r1 where "r1 = update_node (set_meta M) r1' ab"
  define s1 where "s1 = fst (meta s ''a/b'' M)"
  have parts_ab: "topic_parts ''a/b'' = ab"
    by (simp add: topic_parts_def strip_topic_def ab_def)
  \<comment> \<open>the metadata write\<close>
  have m: "meta s ''a/b'' M =
             (topic_forward (s\<lparr>root := r1\<rparr>) ab ''a/b$'' M (VBool True) VNone True, Inr ())"
    using prefix_ab_meta[OF pre] M
    by (simp add: meta_def publish_def endswith_def topic_find_create_def parts_ab r1_def r1'_def)
  have r1: "root s1 = r1" and p1: "topic_prefix s1 = P"
    by (simp_all add: m s1_def P_def)
  obtain x0 where x0: "find_node r1' ab = Some x0"
    unfolding r1'_def using find_node_create_nodes[of "[]" "root s" ab] by blast
  have name0: "topic_name x0 = ''a/b''"
  proof (cases "find_node (root s) ab")
    case None
    with x0 have "x0 = Topic (join ''/'' ([] @ ab)) VNone VNone [] []"
      unfolding r1'_def using find_node_create_nodes[of "[]" "root s" ab] by simp
    then show ?thesis
      by (simp add: ab_def)
  next
    case (Some y)
    with x0 have "x0 = y"
      unfolding r1'_def using find_node_create_nodes[of "[]" "root s" ab] by simp
    with Some names_ok_find_node[OF ok, of ab y] show ?thesis
      by (simp add: ab_def)
  qed
  define x where "x = set_meta M x0"
  have x1: "find_node r1 ab = Some x"
    using x0 by (simp add: find_node_update_node r1_def x_def)
  have xm: "topic_meta x = M" and xn: "topic_name x = ''a/b''"
    using name0 by (simp_all add: set_meta_def x_def)
  \<comment> \<open>the subscription at the root\<close>
  define subs where "subs = topic_subscribers r1 @ [(n, forward)]"
  define r2 where "r2 = set_subscribers subs r1"
  define s2 where "s2 = fst (subscribe s1 [] (VFn n) skip_retained forward)"
  have tp0: "topic_parts [] = []"
    by (simp add: topic_parts_def strip_topic_def)
  have sub: "root s2 = r2 \<and> topic_prefix s2 = P \<and>
             snd (subscribe s1 [] (VFn n) skip_retained forward) = Inr ()"
    using callable_not_in_subscribers[of "VFn n" "topic_subscribers r1"]
    by (simp add: subscribe_def topic_find_create_def tp0 topic_subscribe_def r1 p1 Let_def
        s2_def r2_def subs_def)
  then have r2: "root s2 = r2" and p2: "topic_prefix s2 = P"
    by simp_all
  have "ab \<noteq> []"
    by (simp add: ab_def)
  then have x2: "find_node r2 ab = Some x"
    using x1 by (cases ab) (simp_all add: set_subscribers_def r2_def)
  have subs2: "topic_subscribers r2 = subs"
    by (simp add: set_subscribers_def r2_def)
  \<comment> \<open>the broadcast\<close>
  obtain rest where rest: "topic_parts P @ rest = ab"
    using prefix_parts_ab[OF pre] by (auto simp: P_def ab_def)
  with x2 obtain t where t: "find_node r2 (topic_parts P) = Some t"
    and tx: "find_node t rest = Some x"
    using find_node_append[of r2 "topic_parts P" rest x] by auto
  have same: "create_nodes [] r2 (topic_parts P) = r2"
    using create_nodes_existing[OF t] .
  define X where "X = meta_send_all_calls r2 (tl (walk_up r2 (topic_parts P))) VNone t"
  define Y' where "Y' = forward_node_calls r2 ''$'' VNone retain VNone (topic_subscribers r1)"
  define e1 where "e1 = \<lparr>call_cbk = n, call_topic = ''a/b$'', call_value = M,
               call_retain = Some (VBool False), call_tree = r2\<rparr>"
  define e2 where "e2 = \<lparr>call_cbk = n, call_topic = ''$'', call_value = VNone,
               call_retain = Some retain, call_tree = r2\<rparr>"
  have Y: "forward_node_calls r2 ''$'' VNone retain VNone subs = Y' @ [e2]"
    using fwd by (simp add: forward_node_calls_append subs_def Y'_def e2_def)
  have s2eq: "s2\<lparr>root := r2\<rparr> = s2"
    using r2 by simp
  have pub: "publish s2 ''$'' VNone retain VNone =
               (s2\<lparr>calls := calls s2 @ X @ Y' @ [e2]\<rparr>, Inr ())"
    using t Y
    by (simp add: publish_def topic_find_create_def p2 r2 same s2eq meta_send_all_def
        topic_forward_def walk_up_def subs2 X_def)
  have "r2 \<in> set (rev (path_nodes t rest) @ tl (walk_up r2 (topic_parts P)))"
    using root_in_chain[OF t] .
  moreover have "(n, forward) \<in> set (topic_subscribers r2)"
    by (simp add: subs2 subs_def)
  ultimately have "e1 \<in> set (forward_walk_calls r2 ''a/b$'' M (VBool False) VNone True
                      (rev (path_nodes t rest) @ tl (walk_up r2 (topic_parts P))))"
    unfolding e1_def using fwd by (intro forward_walk_calls_member) auto
  moreover have "set (forward_walk_calls r2 (topic_name x @ ''$'') (topic_meta x) (VBool False)
                        VNone True (rev (path_nodes t rest) @ tl (walk_up r2 (topic_parts P))))
                   \<subseteq> set X"
    unfolding X_def using M by (intro meta_send_all_calls_covers[OF tx]) (simp add: xm)
  ultimately have "e1 \<in> set X"
    using xm xn by auto
  then obtain before mid where Xs: "X = before @ e1 # mid"
    by (auto simp: in_set_conv_decomp)
  have "calls (fst (publish s2 ''$'' VNone retain VNone)) =
          calls s2 @ before @ e1 # (mid @ Y') @ [e2]"
    unfolding pub Xs by simp
  then have "\<exists>before between. calls (fst (publish s2 ''$'' VNone retain VNone)) =
          calls s2 @ before @ e1 # between @ [e2]"
    by blast
  with m sub pub show ?thesis
    unfolding s2_def s1_def e1_def e2_def by (simp add: r2[unfolded s2_def s1_def])
qed

text \<open>On the new engine with the prefix \<^verbatim>\<open>a\<close> these two are all the calls.\<close>

theorem meta_broadcast_witness:
  "startswith ''a/b'' (topic_prefix (init (Some ''a''))) \<and>
   names_ok [] (root (init (Some ''a''))) \<and>
   VDict (fmap_of_list [(''type'', VStr ''u32'')]) \<noteq> VNone \<and>
   py_bool (VBool True) \<and>
   snd (publish
          (fst (subscribe
                  (fst (meta (init (Some ''a'')) ''a/b''
                          (VDict (fmap_of_list [(''type'', VStr ''u32'')]))))
                  [] (VFn 1) VNone (VBool True)))
          ''$'' VNone VNone VNone) = Inr () \<and>
   calls (fst (publish
          (fst (subscribe
                  (fst (meta (init (Some ''a'')) ''a/b''
                          (VDict (fmap_of_list [(''type'', VStr ''u32'')]))))
                  [] (VFn 1) VNone (VBool True)))
          ''$'' VNone VNone VNone)) =
     [\<lparr>call_cbk = 1, call_topic = ''a/b$'',
       call_value = VDict (fmap_of_list [(''type'', VStr ''u32'')]),
       call_retain = Some (VBool False),
       call_tree = Topic [] VNone VNone
                     [(''a'', Topic ''a'' VNone VNone
                                [(''b'', Topic ''a/b'' VNone
                                           (VDict (fmap_of_list [(''type'', VStr ''u32'')]))
                                           [] [])] [])]
                     [(1, VBool True)]\<rparr>,
      \<lparr>call_cbk = 1, call_topic = ''$'', call_value = VNone, call_retain = Some VNone,
       call_tree = Topic [] VNone VNone
                     [(''a'', Topic ''a'' VNone VNone
                                [(''b'', Topic ''a/b'' VNone
                                           (VDict (fmap_of_list [(''type'', VStr ''u32'')]))
                                           [] [])] [])]
                     [(1, VBool True)]\<rparr>]"
proof -
  have h1: "startswith ''a/b'' (topic_prefix (init (Some ''a'')))"
    by (simp add: init_def startswith_def)
  have h2: "names_ok [] (root (init (Some ''a'')))"
    by (rule names_ok_init)
  have h3: "VDict (fmap_of_list [(''type'', VStr ''u32'')]) \<noteq> VNone"
    by simp
  have h4: "py_bool (VBool True)"
    by simp
  have c: "calls (fst (publish
          (fst (subscribe
                  (fst (meta (init (Some ''a'')) ''a/b''
                          (VDict (fmap_of_list [(''type'', VStr ''u32'')]))))
                  [] (VFn 1) VNone (VBool True)))
          ''$'' VNone VNone VNone)) =
     [\<lparr>call_cbk = 1, call_topic = ''a/b$'',
       call_value = VDict (fmap_of_list [(''type'', VStr ''u32'')]),
       call_retain = Some (VBool False),
       call_tree = Topic [] VNone VNone
                     [(''a'', Topic ''a'' VNone VNone
                                [(''b'', Topic ''a/b'' VNone
                                           (VDict (fmap_of_list [(''type'', VStr ''u32'')]))
                                           [] [])] [])]
                     [(1, VBool True)]\<rparr>,
      \<lparr>call_cbk = 1, call_topic = ''$'', call_value = VNone, call_retain = Some VNone,
       call_tree = Topic [] VNone VNone
                     [(''a'', Topic ''a'' VNone VNone
                                [(''b'', Topic ''a/b'' VNone
                                           (VDict (fmap_of_list [(''type'', VStr ''u32'')]))
                                           [] [])] [])]
                     [(1, VBool True)]\<rparr>]"
    by (simp add: engine_defs)
  from meta_broadcast[OF h1 h2 h3 h4, of 1 VNone VNone] h1 h2 h3 h4 c
  show ?thesis
    by simp
qed

section \<open>The excluded source\<close>













lemma engine_set_engine [simp]:
  "engine sd (set_engine sd e b) = e"
  "engine sd (set_engine (other sd) e b) = engine sd b"
  "engine (other sd) (set_engine sd e b) = engine (other sd) b"
  by (cases sd; simp)+

lemma bridge_fields_set_engine [simp]:
  "relay_of sd' (set_engine sd e b) = relay_of sd' b"
  "relay_topic sd' (set_engine sd e b) = relay_topic sd' b"
  "relayed (set_engine sd e b) = relayed b"
  by (cases sd; cases sd'; simp add: fun_eq_iff)+

lemma bridge_fields_relayed [simp]:
  "relay_of sd (b\<lparr>relayed := x\<rparr>) = relay_of sd b"
  "relay_topic sd (b\<lparr>relayed := x\<rparr>) = relay_topic sd b"
  "engine sd (b\<lparr>relayed := x\<rparr>) = engine sd b"
  by (cases sd; simp add: fun_eq_iff)+

lemma relay_event_fields [simp]:
  "relay_event sd (set_engine sd' e b) = relay_event sd b"
  "relay_event sd (b\<lparr>relayed := x\<rparr>) = relay_event sd b"
  by (simp_all add: relay_event_def fun_eq_iff)











section \<open>The reserved query suffix\<close>

text \<open>
  C9. For every topic string that ends in \<^verbatim>\<open>?\<close>, \<^verbatim>\<open>publish\<close> returns without an error
  and the whole engine state after the call is the state before it: no node is created,
  no value, metadata or subscriber list changes, and no callback is invoked.
\<close>

theorem publish_query_noop:
  "publish s (topic @ ''?'') v retain src_cbk = (s, Inr ())"
  by (simp add: publish_def endswith_def)

end
